theory Spec2Isabelle
  imports Complex_Main
begin

section \<open>Python values, strings and exceptions\<close>

text \<open>
  A Python \<open>str\<close> is a sequence of Unicode code points, so it is a list of naturals here.
  ASCII literals of the source are written through \<open>ascii\<close>.
\<close>

type_synonym pystr = "nat list"

definition ascii :: "string \<Rightarrow> pystr" where
  "ascii s = map of_char s"

text \<open>
  The values that occur in the parsed request body and in the structure that is returned:
  \<open>None\<close>, booleans, integers, floats, strings, lists and dictionaries. A dictionary keeps
  its insertion order and is an association list. Floats are kept abstract (\<open>'n\<close>): the
  source copies coordinates and sizes and never computes with them.
\<close>

datatype 'n pyval =
    PNone
  | PBool bool
  | PInt int
  | PFloat 'n
  | PStr pystr
  | PList "'n pyval list"
  | PDict "(pystr \<times> 'n pyval) list"

text \<open>Truth value of an object, as \<open>if not x\<close> tests it.\<close>

fun truthy :: "'n::zero pyval \<Rightarrow> bool" where
  "truthy PNone = False"
| "truthy (PBool b) = b"
| "truthy (PInt i) = (i \<noteq> 0)"
| "truthy (PFloat x) = (x \<noteq> 0)"
| "truthy (PStr s) = (s \<noteq> [])"
| "truthy (PList xs) = (xs \<noteq> [])"
| "truthy (PDict d) = (d \<noteq> [])"

text \<open>\<open>type(x).__name__\<close>, which the message of an \<open>AttributeError\<close> quotes.\<close>

fun type_name :: "'n pyval \<Rightarrow> pystr" where
  "type_name PNone = ascii ''NoneType''"
| "type_name (PBool b) = ascii ''bool''"
| "type_name (PInt i) = ascii ''int''"
| "type_name (PFloat x) = ascii ''float''"
| "type_name (PStr s) = ascii ''str''"
| "type_name (PList xs) = ascii ''list''"
| "type_name (PDict d) = ascii ''dict''"

text \<open>\<open>d.get(k)\<close> on a dictionary: the value, or \<open>None\<close> when the key is absent.\<close>

definition dict_lookup :: "(pystr \<times> 'n pyval) list \<Rightarrow> pystr \<Rightarrow> 'n pyval" where
  "dict_lookup d k = (case map_of d k of None \<Rightarrow> PNone | Some v \<Rightarrow> v)"

text \<open>
  Exceptions, all of them subclasses of \<open>Exception\<close>. \<open>LibError\<close> stands for whatever the
  PDF library or the web framework raises, carrying its message.
\<close>

datatype exn =
    KeyError pystr
  | AttributeError pystr
  | LibError pystr
  | Exception pystr

text \<open>
  \<open>str(e)\<close>. For a \<open>KeyError\<close> it is the \<open>repr\<close> of the key; the keys the source
  subscripts are plain ASCII words, whose \<open>repr\<close> is the word between single quotes.
\<close>

fun str_exn :: "exn \<Rightarrow> pystr" where
  "str_exn (KeyError k) = [39] @ k @ [39]"
| "str_exn (AttributeError m) = m"
| "str_exn (LibError m) = m"
| "str_exn (Exception m) = m"

subsection \<open>Built-in string operations\<close>

text \<open>The code points \<open>str.isspace\<close> accepts, which \<open>str.strip()\<close> removes.\<close>

definition isspace :: "nat \<Rightarrow> bool" where
  "isspace c \<longleftrightarrow>
     (9 \<le> c \<and> c \<le> 13) \<or> (28 \<le> c \<and> c \<le> 32) \<or> c = 133 \<or> c = 160 \<or> c = 5760 \<or>
     (8192 \<le> c \<and> c \<le> 8202) \<or> c = 8232 \<or> c = 8233 \<or> c = 8239 \<or> c = 8287 \<or> c = 12288"

definition strip :: "pystr \<Rightarrow> pystr" where
  "strip s = rev (dropWhile isspace (rev (dropWhile isspace s)))"

text \<open>Decimal rendering of a non-negative integer, as an f-string formats it.\<close>

fun str_nat :: "nat \<Rightarrow> pystr" where
  "str_nat n = (if n < 10 then [48 + n] else str_nat (n div 10) @ [48 + n mod 10])"

declare str_nat.simps [simp del]

section \<open>What the PDF library reports\<close>

text \<open>
  \<open>page.get_text("dict")\<close> returns nested dictionaries of a fixed shape. The model types
  that shape and keeps optional exactly the keys the source may find absent: the ones read
  with \<open>.get\<close> (a default replaces them) and the ones subscripted (a \<open>KeyError\<close> is raised).
\<close>

record span =
  span_text :: "pystr option"

record line =
  line_spans :: "span list option"

record 'n block =
  block_type :: "int option"
  block_bbox :: "'n list option"
  block_lines :: "line list option"

text \<open>
  A page has its rectangle and the result of \<open>get_text("dict")\<close>: an exception, or the
  dictionary, of which only the key \<open>blocks\<close> is read.
\<close>

record 'n page =
  rect_width :: 'n
  rect_height :: 'n
  get_text_dict :: "exn + 'n block list option"

text \<open>
  An opened document: \<open>len(doc)\<close> is the length of the list and \<open>doc[i]\<close> its entry,
  an exception when the page cannot be loaded.
\<close>

type_synonym 'n document = "(exn + 'n page) list"

text \<open>
  The effects the claims are about: the arguments \<open>fitz.open\<close> has been called with, and
  the number of documents opened and not closed.
\<close>

record 'n world =
  open_calls :: "'n pyval list"
  live_docs :: nat

section \<open>The extraction function\<close>

text \<open>Lines 38 and 39: the spans of one line are appended to the text.\<close>

fun spans_loop :: "span list \<Rightarrow> pystr \<Rightarrow> pystr" where
  "spans_loop [] t = t"
| "spans_loop (s # ss) t =
     spans_loop ss (t @ (case span_text s of None \<Rightarrow> [] | Some x \<Rightarrow> x))"

text \<open>Lines 37 to 40: after the spans of each line a newline is appended.\<close>

fun lines_loop :: "line list \<Rightarrow> pystr \<Rightarrow> pystr" where
  "lines_loop [] t = t"
| "lines_loop (l # ls) t =
     lines_loop ls (spans_loop (case line_spans l of None \<Rightarrow> [] | Some ss \<Rightarrow> ss) t @ [10])"

definition block_text :: "'n block \<Rightarrow> pystr" where
  "block_text b = lines_loop (case block_lines b of None \<Rightarrow> [] | Some ls \<Rightarrow> ls) []"

definition el_id :: "nat \<Rightarrow> nat \<Rightarrow> pystr" where
  "el_id page_num idx = ascii ''el_'' @ str_nat (page_num + 1) @ ascii ''_'' @ str_nat idx"

definition text_element :: "nat \<Rightarrow> nat \<Rightarrow> 'n list \<Rightarrow> pystr \<Rightarrow> 'n pyval" where
  "text_element page_num idx bbox txt = PDict
     [(ascii ''id'', PStr (el_id page_num idx)),
      (ascii ''type'', PStr (ascii ''text'')),
      (ascii ''bbox'', PList (map PFloat bbox)),
      (ascii ''pageIndex'', PInt (int page_num + 1)),
      (ascii ''content'', PStr (strip txt))]"

definition image_element :: "nat \<Rightarrow> nat \<Rightarrow> 'n list \<Rightarrow> 'n pyval" where
  "image_element page_num idx bbox = PDict
     [(ascii ''id'', PStr (el_id page_num idx)),
      (ascii ''type'', PStr (ascii ''image'')),
      (ascii ''bbox'', PList (map PFloat bbox)),
      (ascii ''pageIndex'', PInt (int page_num + 1))]"

text \<open>
  Lines 32 to 58, the body of the loop over the blocks: \<open>elements\<close> is the list built so
  far, and the result is the list after this block, or the exception raised.
\<close>

definition block_step ::
  "nat \<Rightarrow> nat \<Rightarrow> 'n block \<Rightarrow> 'n pyval list \<Rightarrow> exn + 'n pyval list" where
  "block_step page_num idx b elements =
     (if block_type b = Some 0 then
        (case block_bbox b of
           None \<Rightarrow> Inl (KeyError (ascii ''bbox''))
         | Some bbox \<Rightarrow>
             (let txt = block_text b in
              if strip txt \<noteq> [] then Inr (elements @ [text_element page_num idx bbox txt])
              else Inr elements))
      else if block_type b = Some 1 then
        (case block_bbox b of
           None \<Rightarrow> Inl (KeyError (ascii ''bbox''))
         | Some bbox \<Rightarrow> Inr (elements @ [image_element page_num idx bbox]))
      else Inr elements)"

text \<open>Line 31: \<open>enumerate(blocks)\<close>, the index counting from zero.\<close>

fun blocks_loop ::
  "nat \<Rightarrow> nat \<Rightarrow> 'n block list \<Rightarrow> 'n pyval list \<Rightarrow> exn + 'n pyval list" where
  "blocks_loop page_num idx [] elements = Inr elements"
| "blocks_loop page_num idx (b # bs) elements =
     (case block_step page_num idx b elements of
        Inl e \<Rightarrow> Inl e
      | Inr elements' \<Rightarrow> blocks_loop page_num (idx + 1) bs elements')"

definition page_entry :: "nat \<Rightarrow> 'n page \<Rightarrow> 'n pyval list \<Rightarrow> 'n pyval" where
  "page_entry page_num pg elements = PDict
     [(ascii ''pageIndex'', PInt (int page_num + 1)),
      (ascii ''width'', PFloat (rect_width pg)),
      (ascii ''height'', PFloat (rect_height pg)),
      (ascii ''blocks'', PList elements)]"

text \<open>
  Lines 23 to 65, the loop over \<open>range(len(doc))\<close>: the second argument is what is left
  of the document from \<open>page_num\<close> on, the third the pages built so far.
\<close>

fun pages_loop ::
  "nat \<Rightarrow> 'n document \<Rightarrow> 'n pyval list \<Rightarrow> exn + 'n pyval list" where
  "pages_loop page_num [] pages = Inr pages"
| "pages_loop page_num (p # ps) pages =
     (case p of
        Inl e \<Rightarrow> Inl e
      | Inr pg \<Rightarrow>
          (case get_text_dict pg of
             Inl e \<Rightarrow> Inl e
           | Inr None \<Rightarrow> Inl (KeyError (ascii ''blocks''))
           | Inr (Some blocks) \<Rightarrow>
               (case blocks_loop page_num 0 blocks [] of
                  Inl e \<Rightarrow> Inl e
                | Inr elements \<Rightarrow>
                    pages_loop (page_num + 1) ps (pages @ [page_entry page_num pg elements]))))"

definition result_structure :: "'n pyval list \<Rightarrow> 'n pyval" where
  "result_structure pages = PDict
     [(ascii ''pageCount'', PInt (int (length pages))),
      (ascii ''pages'', PList pages)]"

text \<open>
  Lines 20 to 72, the body of the \<open>try\<close>. \<open>fitz_open\<close> is the library's \<open>open\<close>: what
  it answers for each argument. The document is closed at line 67 only, after the loop.
\<close>

definition try_body ::
  "('n pyval \<Rightarrow> exn + 'n document) \<Rightarrow> 'n pyval \<Rightarrow> 'n world \<Rightarrow> (exn + 'n pyval) \<times> 'n world" where
  "try_body fitz_open pdf_path w =
     (let w1 = w\<lparr>open_calls := open_calls w @ [pdf_path]\<rparr> in
      case fitz_open pdf_path of
        Inl e \<Rightarrow> (Inl e, w1)
      | Inr doc \<Rightarrow>
          (let w2 = w1\<lparr>live_docs := live_docs w1 + 1\<rparr> in
           case pages_loop 0 doc [] of
             Inl e \<Rightarrow> (Inl e, w2)
           | Inr pages \<Rightarrow> (Inr (result_structure pages), w2\<lparr>live_docs := live_docs w2 - 1\<rparr>)))"

text \<open>
  The prefix of line 75, the code points 35299, 26512, 22833, 36133 followed by a colon
  and a space.
\<close>

definition failure_prefix :: pystr where
  "failure_prefix = [35299, 26512, 22833, 36133, 58, 32]"

definition parse_pdf_simple ::
  "('n pyval \<Rightarrow> exn + 'n document) \<Rightarrow> 'n pyval \<Rightarrow> 'n world \<Rightarrow> (exn + 'n pyval) \<times> 'n world" where
  "parse_pdf_simple fitz_open pdf_path w =
     (case try_body fitz_open pdf_path w of
        (Inl e, w') \<Rightarrow> (Inl (Exception (failure_prefix @ str_exn e)), w')
      | (Inr r, w') \<Rightarrow> (Inr r, w'))"

section \<open>The handler of POST /parse\<close>

text \<open>
  A response is the status with the body given to \<open>jsonify\<close>. \<open>request_json\<close> is what
  evaluating \<open>request.json\<close> gives: the parsed body, or the exception the framework raises.
  Writing the trace to the server's log (line 92) is left out.
\<close>

type_synonym 'n response = "nat \<times> 'n pyval"

definition attribute_error_get :: "'n pyval \<Rightarrow> exn" where
  "attribute_error_get v =
     AttributeError ([39] @ type_name v @ [39] @ ascii '' object has no attribute '' @
                     [39] @ ascii ''get'' @ [39])"

definition parse_pdf ::
  "('n::zero pyval \<Rightarrow> exn + 'n document) \<Rightarrow> exn + 'n pyval \<Rightarrow> 'n world \<Rightarrow> 'n response \<times> 'n world" where
  "parse_pdf fitz_open request_json w =
     (case request_json of
        Inl e \<Rightarrow> ((500, PDict [(ascii ''error'', PStr (str_exn e))]), w)
      | Inr (PDict d) \<Rightarrow>
          (let pdf_path = dict_lookup d (ascii ''pdf_path'') in
           if \<not> truthy pdf_path then
             ((400, PDict [(ascii ''error'', PStr (ascii ''PDF path required''))]), w)
           else
             (case parse_pdf_simple fitz_open pdf_path w of
                (Inl e, w') \<Rightarrow> ((500, PDict [(ascii ''error'', PStr (str_exn e))]), w')
              | (Inr r, w') \<Rightarrow> ((200, PDict [(ascii ''structure'', r)]), w')))
      | Inr v \<Rightarrow>
          ((500, PDict [(ascii ''error'', PStr (str_exn (attribute_error_get v)))]), w))"

text \<open>Whether the parsed body is a dictionary, the only kind of value with a \<open>get\<close>.\<close>

fun is_dict :: "'n pyval \<Rightarrow> bool" where
  "is_dict (PDict d) = True"
| "is_dict v = False"

section \<open>Reading the result\<close>

text \<open>The value stored under a key of a dictionary, if there is one.\<close>

fun field :: "string \<Rightarrow> 'n pyval \<Rightarrow> 'n pyval option" where
  "field k (PDict d) = map_of d (ascii k)"
| "field k v = None"

fun keys :: "'n pyval \<Rightarrow> pystr list" where
  "keys (PDict d) = map fst d"
| "keys v = []"

fun items :: "'n pyval option \<Rightarrow> 'n pyval list" where
  "items (Some (PList xs)) = xs"
| "items v = []"

definition result_pages :: "'n pyval \<Rightarrow> 'n pyval list" where
  "result_pages r = items (field ''pages'' r)"

definition page_blocks :: "'n pyval \<Rightarrow> 'n pyval list" where
  "page_blocks p = items (field ''blocks'' p)"

text \<open>What a block appends to the list of elements: nothing when its step raises.\<close>

definition emitted :: "nat \<Rightarrow> nat \<Rightarrow> 'n block \<Rightarrow> 'n pyval list" where
  "emitted page_num idx b = (case block_step page_num idx b [] of Inl e \<Rightarrow> [] | Inr els \<Rightarrow> els)"

section \<open>The content of a text block, as the specification words it\<close>

text \<open>
  The text of every span of a line, followed by a newline; the lines of the block one
  after the other; the whole trimmed.
\<close>

definition spec_line_text :: "line \<Rightarrow> pystr" where
  "spec_line_text l =
     concat (map (\<lambda>s. case span_text s of None \<Rightarrow> [] | Some x \<Rightarrow> x)
                 (case line_spans l of None \<Rightarrow> [] | Some ss \<Rightarrow> ss)) @ [10]"

definition spec_content :: "'n block \<Rightarrow> pystr" where
  "spec_content b =
     strip (concat (map spec_line_text (case block_lines b of None \<Rightarrow> [] | Some ls \<Rightarrow> ls)))"

section \<open>Well-formed geometry\<close>

fun wf_bbox :: "'n::ord list \<Rightarrow> bool" where
  "wf_bbox [x0, y0, x1, y1] = (x0 \<le> x1 \<and> y0 \<le> y1)"
| "wf_bbox bb = False"

definition block_wf :: "'n::ord block \<Rightarrow> bool" where
  "block_wf b = (case block_bbox b of None \<Rightarrow> True | Some bb \<Rightarrow> wf_bbox bb)"

definition page_wf :: "exn + 'n::ord page \<Rightarrow> bool" where
  "page_wf p =
     (case p of
        Inl e \<Rightarrow> True
      | Inr pg \<Rightarrow>
          (case get_text_dict pg of
             Inr (Some blocks) \<Rightarrow> list_all block_wf blocks
           | _ \<Rightarrow> True))"

definition doc_wf :: "'n::ord document \<Rightarrow> bool" where
  "doc_wf doc = list_all page_wf doc"

section \<open>Documents the loops can read to the end\<close>

text \<open>
  A text or image block must carry its bounding box, the text of a page must be
  extracted and hold its blocks, and every page must load.
\<close>

definition block_readable :: "'n block \<Rightarrow> bool" where
  "block_readable b \<longleftrightarrow>
     (if block_type b = Some 0 \<or> block_type b = Some 1 then block_bbox b \<noteq> None else True)"

definition page_readable :: "exn + 'n page \<Rightarrow> bool" where
  "page_readable p =
     (case p of
        Inl e \<Rightarrow> False
      | Inr pg \<Rightarrow>
          (case get_text_dict pg of
             Inr (Some blocks) \<Rightarrow> list_all block_readable blocks
           | _ \<Rightarrow> False))"

definition doc_readable :: "'n document \<Rightarrow> bool" where
  "doc_readable doc = list_all page_readable doc"

section \<open>A sample library\<close>

text \<open>
  Two documents. The first has two pages: a paragraph, an image and a block of another
  kind on page one, nothing on page two. The second opens, and its second page cannot be
  loaded. Any other path cannot be opened.
\<close>

definition sample_text_block :: "real block" where
  "sample_text_block =
     \<lparr>block_type = Some 0, block_bbox = Some [72, 72, 300, 100],
      block_lines = Some
        [\<lparr>line_spans = Some [\<lparr>span_text = Some (ascii ''Hello '')\<rparr>,
                             \<lparr>span_text = Some (ascii ''world'')\<rparr>]\<rparr>]\<rparr>"

definition sample_other_block :: "real block" where
  "sample_other_block = \<lparr>block_type = Some 7, block_bbox = None, block_lines = None\<rparr>"

definition sample_image_block :: "real block" where
  "sample_image_block =
     \<lparr>block_type = Some 1, block_bbox = Some [72, 120, 200, 220], block_lines = None\<rparr>"

definition sample_page :: "real page" where
  "sample_page =
     \<lparr>rect_width = 612, rect_height = 792,
      get_text_dict = Inr (Some [sample_text_block, sample_other_block, sample_image_block])\<rparr>"

definition blank_page :: "real page" where
  "blank_page = \<lparr>rect_width = 612, rect_height = 792, get_text_dict = Inr (Some [])\<rparr>"

definition sample_doc :: "real document" where
  "sample_doc = [Inr sample_page, Inr blank_page]"

definition broken_doc :: "real document" where
  "broken_doc = [Inr sample_page, Inl (LibError (ascii ''cannot load page''))]"

definition sample_open :: "real pyval \<Rightarrow> exn + real document" where
  "sample_open p =
     (if p = PStr (ascii ''a.pdf'') then Inr sample_doc
      else if p = PStr (ascii ''broken.pdf'') then Inr broken_doc
      else Inl (LibError (ascii ''no such file'')))"

definition world0 :: "real world" where
  "world0 = \<lparr>open_calls = [], live_docs = 0\<rparr>"

definition sample_result :: "real pyval" where
  "sample_result = PDict
     [(ascii ''pageCount'', PInt 2),
      (ascii ''pages'', PList
         [PDict [(ascii ''pageIndex'', PInt 1), (ascii ''width'', PFloat 612),
                 (ascii ''height'', PFloat 792),
                 (ascii ''blocks'', PList
                    [PDict [(ascii ''id'', PStr (ascii ''el_1_0'')),
                            (ascii ''type'', PStr (ascii ''text'')),
                            (ascii ''bbox'', PList [PFloat 72, PFloat 72, PFloat 300, PFloat 100]),
                            (ascii ''pageIndex'', PInt 1),
                            (ascii ''content'', PStr (ascii ''Hello world''))],
                     PDict [(ascii ''id'', PStr (ascii ''el_1_2'')),
                            (ascii ''type'', PStr (ascii ''image'')),
                            (ascii ''bbox'', PList [PFloat 72, PFloat 120, PFloat 200, PFloat 220]),
                            (ascii ''pageIndex'', PInt 1)]])],
          PDict [(ascii ''pageIndex'', PInt 2), (ascii ''width'', PFloat 612),
                 (ascii ''height'', PFloat 792), (ascii ''blocks'', PList [])]])]"

section \<open>The text of a block\<close>

lemma spans_loop_eq:
  "spans_loop ss t = t @ concat (map (\<lambda>s. case span_text s of None \<Rightarrow> [] | Some x \<Rightarrow> x) ss)"
  by (induction ss arbitrary: t) simp_all

lemma lines_loop_eq: "lines_loop ls t = t @ concat (map spec_line_text ls)"
  by (induction ls arbitrary: t) (simp_all add: spans_loop_eq spec_line_text_def)

lemma strip_block_text: "strip (block_text b) = spec_content b"
  by (simp add: block_text_def spec_content_def lines_loop_eq)

text \<open>
  Claim C4. For a block of text kind that carries its bounding box, as every block the
  library reports does, the two loops of the source compute the concatenation the
  specification describes: the text of every span of every line, a newline after each
  line, the whole trimmed. The block is emitted exactly when that trimmed text is not
  empty, with the trimmed text as its content; otherwise the list of elements is left as
  it is.
\<close>

theorem text_block_content:
  assumes "block_type b = Some 0" and "block_bbox b = Some bb"
  shows "block_step page_num idx b elements =
     (if spec_content b \<noteq> [] then
        Inr (elements @
          [PDict [(ascii ''id'',
                     PStr (ascii ''el_'' @ str_nat (page_num + 1) @ ascii ''_'' @ str_nat idx)),
                  (ascii ''type'', PStr (ascii ''text'')),
                  (ascii ''bbox'', PList (map PFloat bb)),
                  (ascii ''pageIndex'', PInt (int page_num + 1)),
                  (ascii ''content'', PStr (spec_content b))]])
      else Inr elements)"
  using assms
  by (simp add: block_step_def text_element_def el_id_def strip_block_text Let_def)

theorem text_block_content_witness:
  "block_type sample_text_block = Some 0 \<and>
   block_bbox sample_text_block = Some [72, 72, 300, 100] \<and>
   block_step 0 0 sample_text_block [] =
     Inr [PDict [(ascii ''id'', PStr (ascii ''el_1_0'')),
                 (ascii ''type'', PStr (ascii ''text'')),
                 (ascii ''bbox'', PList [PFloat 72, PFloat 72, PFloat 300, PFloat 100]),
                 (ascii ''pageIndex'', PInt 1),
                 (ascii ''content'', PStr (ascii ''Hello world''))]]"
  using text_block_content [of sample_text_block "[72, 72, 300, 100]" 0 0 "[]"]
  by (simp add: sample_text_block_def spec_content_def spec_line_text_def strip_def
      isspace_def ascii_def str_nat.simps)

text \<open>A text block without its bounding box makes the step raise at line 33.\<close>

lemma text_block_without_bbox:
  "block_type b = Some 0 \<Longrightarrow> block_bbox b = None \<Longrightarrow>
   block_step page_num idx b elements = Inl (KeyError (ascii ''bbox''))"
  by (simp add: block_step_def)

section \<open>Blocks of another kind\<close>

lemma blocks_loop_append:
  "blocks_loop page_num idx (pre @ post) elements =
     (case blocks_loop page_num idx pre elements of
        Inl e \<Rightarrow> Inl e
      | Inr els \<Rightarrow> blocks_loop page_num (idx + length pre) post els)"
  by (induction pre arbitrary: idx elements) (simp_all split: sum.splits)

text \<open>
  Claim C6. A block whose kind is neither 0 (text) nor 1 (image), a block without a kind
  included, adds nothing to the elements and raises nothing, whatever else it carries;
  the loop goes on with the blocks after it, which keep their positions.
\<close>

theorem other_kind_skipped:
  assumes "block_type b \<noteq> Some 0" and "block_type b \<noteq> Some 1"
  shows "block_step page_num idx b elements = Inr elements \<and>
         blocks_loop page_num idx (pre @ b # post) elements =
           (case blocks_loop page_num idx pre elements of
              Inl e \<Rightarrow> Inl e
            | Inr els \<Rightarrow> blocks_loop page_num (idx + length pre + 1) post els)"
  using assms by (simp add: blocks_loop_append block_step_def split: sum.splits)

theorem other_kind_skipped_witness:
  "block_type sample_other_block \<noteq> Some 0 \<and> block_type sample_other_block \<noteq> Some 1 \<and>
   block_step 0 1 sample_other_block [] = Inr [] \<and>
   blocks_loop 0 0 ([sample_text_block] @ sample_other_block # [sample_image_block]) [] =
     Inr [text_element 0 0 [72, 72, 300, 100] (ascii ''Hello world'' @ [10]),
          image_element 0 2 [72, 120, 200, 220]]"
  using other_kind_skipped
    [of sample_other_block 0 1 "[]" "[sample_text_block]" "[sample_image_block]"]
  by (simp add: sample_other_block_def sample_text_block_def sample_image_block_def
      block_step_def block_text_def strip_def isspace_def ascii_def text_element_def
      numeral_2_eq_2)

section \<open>Decimal rendering is injective\<close>

lemma str_nat_nonempty: "str_nat n \<noteq> []"
  by (subst str_nat.simps) simp

lemma str_nat_inj: "str_nat n = str_nat m \<Longrightarrow> n = m"
proof (induction n arbitrary: m rule: str_nat.induct)
  case (1 n)
  show ?case
  proof (cases "n < 10")
    case True
    with "1.prems" have a: "[48 + n] = str_nat m" by (subst (asm) str_nat.simps) simp
    show ?thesis
    proof (cases "m < 10")
      case True
      with a show ?thesis by (subst (asm) str_nat.simps) simp
    next
      case False
      with a have "[48 + n] = str_nat (m div 10) @ [48 + m mod 10]"
        by (subst (asm) str_nat.simps) simp
      then show ?thesis using str_nat_nonempty[of "m div 10"] by (cases "str_nat (m div 10)") auto
    qed
  next
    case False
    with "1.prems" have a: "str_nat (n div 10) @ [48 + n mod 10] = str_nat m"
      by (subst (asm) str_nat.simps) simp
    show ?thesis
    proof (cases "m < 10")
      case True
      with a have "str_nat (n div 10) @ [48 + n mod 10] = [48 + m]"
        by (subst (asm) (2) str_nat.simps) simp
      then show ?thesis using str_nat_nonempty[of "n div 10"] by (cases "str_nat (n div 10)") auto
    next
      case m: False
      with a have "str_nat (n div 10) @ [48 + n mod 10] = str_nat (m div 10) @ [48 + m mod 10]"
        by (subst (asm) (2) str_nat.simps) simp
      then have "str_nat (n div 10) = str_nat (m div 10)" and r: "n mod 10 = m mod 10" by auto
      with "1.IH"[OF False] have "n div 10 = m div 10" by blast
      with r show ?thesis by (metis div_mult_mod_eq)
    qed
  qed
qed

lemma el_id_inj: "el_id page_num i = el_id page_num j \<Longrightarrow> i = j"
  by (simp add: el_id_def str_nat_inj)

section \<open>The elements of a page\<close>

lemma block_step_emitted:
  "block_step page_num idx b elements = Inr r \<Longrightarrow> r = elements @ emitted page_num idx b"
  by (auto simp: block_step_def emitted_def Let_def split: if_splits option.splits)

lemma emitted_cases:
  "emitted page_num idx b = [] \<or>
   (\<exists>bb. block_bbox b = Some bb \<and>
      (emitted page_num idx b = [text_element page_num idx bb (block_text b)] \<or>
       emitted page_num idx b = [image_element page_num idx bb]))"
  by (auto simp: block_step_def emitted_def Let_def split: if_splits option.splits)

lemma field_id_text [simp]: "field ''id'' (text_element p i bb t) = Some (PStr (el_id p i))"
  by (simp add: text_element_def ascii_def)

lemma field_id_image [simp]: "field ''id'' (image_element p i bb) = Some (PStr (el_id p i))"
  by (simp add: image_element_def ascii_def)

lemma emitted_id:
  "e \<in> set (emitted page_num idx b) \<Longrightarrow> field ''id'' e = Some (PStr (el_id page_num idx))"
  using emitted_cases [of page_num idx b] by auto

lemma emitted_length: "length (emitted page_num idx b) \<le> 1"
  using emitted_cases [of page_num idx b] by auto

lemma blocks_loop_result:
  "blocks_loop page_num idx bs elements = Inr r \<Longrightarrow>
   r = elements @ concat (map (\<lambda>(i, b). emitted page_num i b) (enumerate idx bs))"
proof (induction bs arbitrary: idx elements)
  case Nil
  then show ?case by simp
next
  case (Cons b bs)
  then obtain els where s: "block_step page_num idx b elements = Inr els"
    and l: "blocks_loop page_num (idx + 1) bs els = Inr r"
    by (auto split: sum.splits)
  from Cons.IH [OF l] block_step_emitted [OF s] show ?case by simp
qed

lemma in_enumerate_concat:
  "e \<in> set (concat (map (\<lambda>(i, b). f i b) (enumerate idx bs))) \<longleftrightarrow>
   (\<exists>k < length bs. e \<in> set (f (idx + k) (bs ! k)))"
  by (induction bs arbitrary: idx) (auto simp: less_Suc_eq_0_disj)

lemma blocks_loop_elements:
  assumes "blocks_loop page_num 0 bs [] = Inr r"
  shows "e \<in> set r \<longleftrightarrow> (\<exists>k < length bs. e \<in> set (emitted page_num k (bs ! k)))"
  using blocks_loop_result [OF assms] in_enumerate_concat [of e "emitted page_num" 0 bs] by simp

lemma emitted_ids_sorted:
  "\<exists>js. map (field ''id'') (concat (map (\<lambda>(i, b). emitted page_num i b) (enumerate idx bs))) =
           map (\<lambda>j. Some (PStr (el_id page_num j))) js \<and>
        sorted_wrt (<) js \<and> (\<forall>j \<in> set js. idx \<le> j)"
proof (induction bs arbitrary: idx)
  case Nil
  show ?case by simp
next
  case (Cons b bs)
  from Cons.IH [of "Suc idx"] obtain js where
    m: "map (field ''id'') (concat (map (\<lambda>(i, b). emitted page_num i b) (enumerate (Suc idx) bs))) =
        map (\<lambda>j. Some (PStr (el_id page_num j))) js"
    and s: "sorted_wrt (<) js" and g: "\<forall>j \<in> set js. Suc idx \<le> j"
    by blast
  show ?case
  proof (cases "emitted page_num idx b")
    case Nil
    with m s g show ?thesis by (intro exI [of _ js]) auto
  next
    case (Cons e es)
    with emitted_length [of page_num idx b] have es: "es = []" by simp
    from Cons have "field ''id'' e = Some (PStr (el_id page_num idx))"
      using emitted_id [of e page_num idx b] by simp
    with Cons es m s g show ?thesis by (intro exI [of _ "idx # js"]) auto
  qed
qed

lemma blocks_loop_distinct_ids:
  assumes "blocks_loop page_num 0 bs [] = Inr r"
  shows "distinct (map (field ''id'') r)"
proof -
  from emitted_ids_sorted [of page_num 0 bs] blocks_loop_result [OF assms]
  obtain js where m: "map (field ''id'') r = map (\<lambda>j. Some (PStr (el_id page_num j))) js"
    and s: "sorted_wrt (<) js" by auto
  from s have "distinct js" by (simp add: strict_sorted_iff)
  moreover have "inj_on (\<lambda>j. Some (PStr (el_id page_num j)) :: 'a pyval option) (set js)"
    by (auto intro!: inj_onI dest: el_id_inj)
  ultimately show ?thesis by (simp add: m distinct_map)
qed

section \<open>The pages of a document\<close>

lemma pages_loop_result:
  "pages_loop k ps acc = Inr out \<Longrightarrow>
   \<exists>new. out = acc @ new \<and> length new = length ps \<and>
     (\<forall>i < length ps. \<exists>pg blocks els.
        ps ! i = Inr pg \<and> get_text_dict pg = Inr (Some blocks) \<and>
        blocks_loop (k + i) 0 blocks [] = Inr els \<and> new ! i = page_entry (k + i) pg els)"
proof (induction ps arbitrary: k acc)
  case Nil
  then show ?case by simp
next
  case (Cons p ps)
  then obtain pg blocks els where p: "p = Inr pg" and g: "get_text_dict pg = Inr (Some blocks)"
    and b: "blocks_loop k 0 blocks [] = Inr els"
    and l: "pages_loop (k + 1) ps (acc @ [page_entry k pg els]) = Inr out"
    by (auto split: sum.splits option.splits)
  from Cons.IH [OF l] obtain new where n: "out = (acc @ [page_entry k pg els]) @ new"
    and len: "length new = length ps"
    and all: "\<forall>i < length ps. \<exists>pg blocks els.
        ps ! i = Inr pg \<and> get_text_dict pg = Inr (Some blocks) \<and>
        blocks_loop (k + 1 + i) 0 blocks [] = Inr els \<and> new ! i = page_entry (k + 1 + i) pg els"
    by blast
  show ?case
  proof (intro exI [of _ "page_entry k pg els # new"] conjI allI impI)
    show "out = acc @ page_entry k pg els # new" using n by simp
    show "length (page_entry k pg els # new) = length (p # ps)" using len by simp
    fix i assume "i < length (p # ps)"
    then show "\<exists>pg' blocks' els'. (p # ps) ! i = Inr pg' \<and> get_text_dict pg' = Inr (Some blocks') \<and>
        blocks_loop (k + i) 0 blocks' [] = Inr els' \<and>
        (page_entry k pg els # new) ! i = page_entry (k + i) pg' els'"
    proof (cases i)
      case 0
      with p g b show ?thesis by simp
    next
      case (Suc j)
      with \<open>i < length (p # ps)\<close> have "j < length ps" by simp
      with all Suc show ?thesis by simp
    qed
  qed
qed

lemma try_body_success:
  "fst (try_body fitz_open pdf_path w) = Inr r \<Longrightarrow>
   \<exists>doc pages. fitz_open pdf_path = Inr doc \<and> pages_loop 0 doc [] = Inr pages \<and>
     r = result_structure pages"
  by (auto simp: try_body_def Let_def split: sum.splits)

lemma parse_pdf_simple_success:
  "fst (parse_pdf_simple fitz_open pdf_path w) = Inr r \<Longrightarrow>
   fst (try_body fitz_open pdf_path w) = Inr r"
  by (auto simp: parse_pdf_simple_def split: sum.splits prod.splits)

lemma result_pages_structure [simp]: "result_pages (result_structure pages) = pages"
  by (simp add: result_pages_def result_structure_def ascii_def)

lemma page_blocks_entry [simp]: "page_blocks (page_entry k pg els) = els"
  by (simp add: page_blocks_def page_entry_def ascii_def)

lemma parse_result_pages:
  assumes "fitz_open pdf_path = Inr doc"
    and "fst (parse_pdf_simple fitz_open pdf_path w) = Inr r"
  shows "r = result_structure (result_pages r) \<and> length (result_pages r) = length doc \<and>
     (\<forall>i < length doc. \<exists>pg blocks els.
        doc ! i = Inr pg \<and> get_text_dict pg = Inr (Some blocks) \<and>
        blocks_loop i 0 blocks [] = Inr els \<and> result_pages r ! i = page_entry i pg els)"
proof -
  from try_body_success [OF parse_pdf_simple_success [OF assms(2)]] assms(1)
  obtain pages where l: "pages_loop 0 doc [] = Inr pages" and r: "r = result_structure pages"
    by auto
  from pages_loop_result [OF l] r show ?thesis by auto
qed

lemma result_block_origin:
  assumes "fitz_open pdf_path = Inr doc"
    and "fst (parse_pdf_simple fitz_open pdf_path w) = Inr r"
    and "p \<in> set (result_pages r)" and "e \<in> set (page_blocks p)"
  shows "\<exists>i pg blocks idx. i < length doc \<and> doc ! i = Inr pg \<and>
           get_text_dict pg = Inr (Some blocks) \<and> idx < length blocks \<and>
           e \<in> set (emitted i idx (blocks ! idx))"
proof -
  note q = parse_result_pages [OF assms(1,2)]
  from assms(3) obtain i where i: "i < length (result_pages r)" and pi: "p = result_pages r ! i"
    by (auto simp: in_set_conv_nth)
  with q obtain pg blocks els where d: "doc ! i = Inr pg"
    and g: "get_text_dict pg = Inr (Some blocks)"
    and b: "blocks_loop i 0 blocks [] = Inr els" and e: "p = page_entry i pg els"
    by (metis (no_types, lifting))
  from assms(4) e have "e \<in> set els" by simp
  with blocks_loop_elements [OF b] obtain idx where "idx < length blocks"
    and "e \<in> set (emitted i idx (blocks ! idx))" by blast
  with i q d g show ?thesis by auto
qed

section \<open>When the extraction returns\<close>

lemma block_step_returns_iff:
  "(\<exists>r. block_step page_num idx b elements = Inr r) \<longleftrightarrow> block_readable b"
  by (auto simp: block_step_def block_readable_def Let_def split: option.splits)

lemma blocks_loop_returns_iff:
  "(\<exists>r. blocks_loop page_num idx bs elements = Inr r) \<longleftrightarrow> list_all block_readable bs"
proof (induction bs arbitrary: idx elements)
  case Nil
  show ?case by simp
next
  case (Cons b bs)
  show ?case
  proof (cases "block_step page_num idx b elements")
    case (Inl e)
    with block_step_returns_iff [of page_num idx b elements] show ?thesis by simp
  next
    case (Inr els)
    with block_step_returns_iff [of page_num idx b elements] Cons.IH [of "idx + 1" els]
    show ?thesis by auto
  qed
qed

lemma pages_loop_returns_iff:
  "(\<exists>r. pages_loop k ps acc = Inr r) \<longleftrightarrow> list_all page_readable ps"
proof (induction ps arbitrary: k acc)
  case Nil
  show ?case by simp
next
  case (Cons p ps)
  show ?case
  proof (cases p)
    case (Inl e)
    then show ?thesis by (simp add: page_readable_def)
  next
    case (Inr pg)
    show ?thesis
    proof (cases "get_text_dict pg")
      case (Inl e)
      with Inr show ?thesis by (simp add: page_readable_def)
    next
      case g: (Inr d)
      show ?thesis
      proof (cases d)
        case None
        with Inr g show ?thesis by (simp add: page_readable_def)
      next
        case (Some blocks)
        show ?thesis
        proof (cases "blocks_loop k 0 blocks []")
          case (Inl e)
          with blocks_loop_returns_iff [of k 0 blocks "[]"] Inr g Some
          show ?thesis by (simp add: page_readable_def)
        next
          case b: (Inr els)
          with blocks_loop_returns_iff [of k 0 blocks "[]"] Inr g Some
            Cons.IH [of "k + 1" "acc @ [page_entry k pg els]"]
          show ?thesis by (simp add: page_readable_def)
        qed
      qed
    qed
  qed
qed

lemma parse_pdf_simple_returns_iff:
  assumes "fitz_open pdf_path = Inr doc"
  shows "(\<exists>r. fst (parse_pdf_simple fitz_open pdf_path w) = Inr r) \<longleftrightarrow> doc_readable doc"
proof (cases "pages_loop 0 doc []")
  case (Inl e)
  with pages_loop_returns_iff [of 0 doc "[]"] assms show ?thesis
    by (simp add: parse_pdf_simple_def try_body_def Let_def doc_readable_def)
next
  case (Inr pages)
  with pages_loop_returns_iff [of 0 doc "[]"] assms show ?thesis
    by (simp add: parse_pdf_simple_def try_body_def Let_def doc_readable_def)
qed

section \<open>The sample document\<close>

lemmas sample_defs = sample_open_def sample_doc_def broken_doc_def sample_page_def blank_page_def
  world0_def sample_text_block_def sample_other_block_def sample_image_block_def

lemma sample_parse:
  "parse_pdf_simple sample_open (PStr (ascii ''a.pdf'')) world0 =
   (Inr sample_result, \<lparr>open_calls = [PStr (ascii ''a.pdf'')], live_docs = 0\<rparr>)"
  by (simp add: sample_defs sample_result_def parse_pdf_simple_def try_body_def
      result_structure_def page_entry_def block_step_def block_text_def text_element_def
      image_element_def el_id_def ascii_def strip_def isspace_def str_nat.simps)

lemma sample_open_a: "sample_open (PStr (ascii ''a.pdf'')) = Inr sample_doc"
  by (simp add: sample_open_def)

lemma sample_parse_fst:
  "fst (parse_pdf_simple sample_open (PStr (ascii ''a.pdf'')) world0) = Inr sample_result"
  by (simp add: sample_parse)

section \<open>Page count and page order\<close>

text \<open>
  Claim C5. When the library opens the document and the extraction returns a result,
  \<open>pageCount\<close> is the number of pages of the document, \<open>pages\<close> has that many entries,
  and the entry at position \<open>i\<close> (counted from zero) has \<open>pageIndex\<close> \<open>i + 1\<close> and the
  width and height of the document's page at that position: the pages are in document
  order.
\<close>

theorem page_count_and_order:
  assumes "fitz_open pdf_path = Inr doc"
    and "fst (parse_pdf_simple fitz_open pdf_path w) = Inr r"
  shows "field ''pageCount'' r = Some (PInt (int (length doc))) \<and>
         field ''pages'' r = Some (PList (result_pages r)) \<and>
         length (result_pages r) = length doc \<and>
         (\<forall>i < length doc.
            field ''pageIndex'' (result_pages r ! i) = Some (PInt (int i + 1)) \<and>
            (\<exists>pg. doc ! i = Inr pg \<and>
               field ''width'' (result_pages r ! i) = Some (PFloat (rect_width pg)) \<and>
               field ''height'' (result_pages r ! i) = Some (PFloat (rect_height pg))))"
proof -
  note p = parse_result_pages [OF assms]
  from p have r: "r = result_structure (result_pages r)" and len: "length (result_pages r) = length doc"
    by blast+
  have "field ''pageCount'' (result_structure (result_pages r)) = Some (PInt (int (length doc)))"
    by (simp add: result_structure_def ascii_def len)
  moreover have "field ''pages'' (result_structure (result_pages r)) = Some (PList (result_pages r))"
    by (simp add: result_structure_def ascii_def)
  moreover have "\<forall>i < length doc.
            field ''pageIndex'' (result_pages r ! i) = Some (PInt (int i + 1)) \<and>
            (\<exists>pg. doc ! i = Inr pg \<and>
               field ''width'' (result_pages r ! i) = Some (PFloat (rect_width pg)) \<and>
               field ''height'' (result_pages r ! i) = Some (PFloat (rect_height pg)))"
  proof (intro allI impI)
    fix i assume "i < length doc"
    with p obtain pg blocks els where d: "doc ! i = Inr pg"
      and e: "result_pages r ! i = page_entry i pg els" by blast
    have "field ''pageIndex'' (page_entry i pg els) = Some (PInt (int i + 1))"
      and "field ''width'' (page_entry i pg els) = Some (PFloat (rect_width pg))"
      and "field ''height'' (page_entry i pg els) = Some (PFloat (rect_height pg))"
      by (simp_all add: page_entry_def ascii_def)
    with d e show "field ''pageIndex'' (result_pages r ! i) = Some (PInt (int i + 1)) \<and>
            (\<exists>pg. doc ! i = Inr pg \<and>
               field ''width'' (result_pages r ! i) = Some (PFloat (rect_width pg)) \<and>
               field ''height'' (result_pages r ! i) = Some (PFloat (rect_height pg)))"
      by simp
  qed
  ultimately show ?thesis using r len by metis
qed

theorem page_count_and_order_witness:
  "sample_open (PStr (ascii ''a.pdf'')) = Inr sample_doc \<and>
   fst (parse_pdf_simple sample_open (PStr (ascii ''a.pdf'')) world0) = Inr sample_result \<and>
   field ''pageCount'' sample_result = Some (PInt 2) \<and>
   length (result_pages sample_result) = 2 \<and>
   field ''pageIndex'' (result_pages sample_result ! 0) = Some (PInt 1) \<and>
   field ''pageIndex'' (result_pages sample_result ! 1) = Some (PInt 2)"
  using page_count_and_order [OF sample_open_a sample_parse_fst] sample_open_a sample_parse_fst
  by (simp add: sample_result_def result_pages_def ascii_def)

section \<open>Identifiers of the elements\<close>

text \<open>
  Claim C7. In the result, every element of the page at position \<open>i\<close> comes from one
  block of the library's block list of that page, at some position \<open>idx\<close> counted from
  zero, and its \<open>id\<close> is \<open>el_\<close>, the decimal of \<open>i + 1\<close>, an underscore and the decimal
  of \<open>idx\<close>. No two elements of one page have the same \<open>id\<close>.
\<close>

theorem element_ids:
  assumes "fitz_open pdf_path = Inr doc"
    and "fst (parse_pdf_simple fitz_open pdf_path w) = Inr r"
    and "i < length doc"
  shows "\<exists>pg blocks. doc ! i = Inr pg \<and> get_text_dict pg = Inr (Some blocks) \<and>
     distinct (map (field ''id'') (page_blocks (result_pages r ! i))) \<and>
     (\<forall>e \<in> set (page_blocks (result_pages r ! i)). \<exists>idx < length blocks.
         e \<in> set (emitted i idx (blocks ! idx)) \<and>
         field ''id'' e =
           Some (PStr (ascii ''el_'' @ str_nat (i + 1) @ ascii ''_'' @ str_nat idx)))"
proof -
  from parse_result_pages [OF assms(1,2)] assms(3)
  obtain pg blocks els where d: "doc ! i = Inr pg"
    and g: "get_text_dict pg = Inr (Some blocks)"
    and b: "blocks_loop i 0 blocks [] = Inr els"
    and e: "result_pages r ! i = page_entry i pg els"
    by blast
  have "distinct (map (field ''id'') els)" by (rule blocks_loop_distinct_ids [OF b])
  moreover have "\<forall>e \<in> set els. \<exists>idx < length blocks.
         e \<in> set (emitted i idx (blocks ! idx)) \<and>
         field ''id'' e =
           Some (PStr (ascii ''el_'' @ str_nat (i + 1) @ ascii ''_'' @ str_nat idx))"
  proof
    fix x assume "x \<in> set els"
    with blocks_loop_elements [OF b] obtain idx where k: "idx < length blocks"
      and m: "x \<in> set (emitted i idx (blocks ! idx))" by blast
    from emitted_id [OF m] have "field ''id'' x =
           Some (PStr (ascii ''el_'' @ str_nat (i + 1) @ ascii ''_'' @ str_nat idx))"
      by (simp add: el_id_def)
    with k m show "\<exists>idx < length blocks.
         x \<in> set (emitted i idx (blocks ! idx)) \<and>
         field ''id'' x =
           Some (PStr (ascii ''el_'' @ str_nat (i + 1) @ ascii ''_'' @ str_nat idx))"
      by blast
  qed
  ultimately show ?thesis using d g e by simp
qed

theorem element_ids_witness:
  "sample_open (PStr (ascii ''a.pdf'')) = Inr sample_doc \<and>
   fst (parse_pdf_simple sample_open (PStr (ascii ''a.pdf'')) world0) = Inr sample_result \<and>
   0 < length sample_doc \<and>
   map (field ''id'') (page_blocks (result_pages sample_result ! 0)) =
     [Some (PStr (ascii ''el_1_0'')), Some (PStr (ascii ''el_1_2''))] \<and>
   distinct (map (field ''id'') (page_blocks (result_pages sample_result ! 0)))"
proof -
  have l: "0 < length sample_doc" by (simp add: sample_doc_def)
  from element_ids [OF sample_open_a sample_parse_fst l] sample_open_a sample_parse_fst l
  show ?thesis
    by (simp add: sample_result_def result_pages_def page_blocks_def ascii_def)
qed

section \<open>Bounding boxes\<close>

lemma wf_bbox_components:
  "wf_bbox bb \<Longrightarrow> \<exists>x0 y0 x1 y1. bb = [x0, y0, x1, y1] \<and> x0 \<le> x1 \<and> y0 \<le> y1"
  by (erule wf_bbox.elims) auto

lemma field_bbox_text [simp]: "field ''bbox'' (text_element p i bb t) = Some (PList (map PFloat bb))"
  by (simp add: text_element_def ascii_def)

lemma field_bbox_image [simp]: "field ''bbox'' (image_element p i bb) = Some (PList (map PFloat bb))"
  by (simp add: image_element_def ascii_def)

lemma emitted_bbox:
  assumes "e \<in> set (emitted page_num idx b)" and "block_wf b"
  shows "\<exists>x0 y0 x1 y1. field ''bbox'' e = Some (PList [PFloat x0, PFloat y0, PFloat x1, PFloat y1]) \<and>
           x0 \<le> x1 \<and> y0 \<le> y1"
proof -
  from emitted_cases [of page_num idx b] assms(1) obtain bb where bb: "block_bbox b = Some bb"
    and f: "field ''bbox'' e = Some (PList (map PFloat bb))" by auto
  from bb assms(2) have "wf_bbox bb" by (simp add: block_wf_def)
  from wf_bbox_components [OF this] f show ?thesis by auto
qed

lemma doc_wf_block:
  assumes "doc_wf doc" and "i < length doc" and "doc ! i = Inr pg"
    and "get_text_dict pg = Inr (Some blocks)" and "idx < length blocks"
  shows "block_wf (blocks ! idx)"
proof -
  from assms(1,2) have "page_wf (doc ! i)" by (simp add: doc_wf_def list_all_length)
  with assms(3,4) have "list_all block_wf blocks" by (simp add: page_wf_def)
  with assms(5) show ?thesis by (simp add: list_all_length)
qed

text \<open>
  Claim C8. If every bounding box the library reports for the document has four
  components with \<open>x0 \<le> x1\<close> and \<open>y0 \<le> y1\<close>, then every element of every page of the
  result has a \<open>bbox\<close> of exactly four numbers with \<open>x0 \<le> x1\<close> and \<open>y0 \<le> y1\<close>.
\<close>

theorem bbox_well_formed:
  assumes "fitz_open pdf_path = Inr doc" and "doc_wf doc"
    and "fst (parse_pdf_simple fitz_open pdf_path w) = Inr r"
  shows "\<forall>p \<in> set (result_pages r). \<forall>e \<in> set (page_blocks p).
           \<exists>x0 y0 x1 y1.
             field ''bbox'' e = Some (PList [PFloat x0, PFloat y0, PFloat x1, PFloat y1]) \<and>
             x0 \<le> x1 \<and> y0 \<le> y1"
proof (intro ballI)
  fix p e assume "p \<in> set (result_pages r)" and "e \<in> set (page_blocks p)"
  from result_block_origin [OF assms(1,3) this]
  obtain i pg blocks idx where "i < length doc" "doc ! i = Inr pg"
    "get_text_dict pg = Inr (Some blocks)" "idx < length blocks"
    and m: "e \<in> set (emitted i idx (blocks ! idx))" by blast
  with doc_wf_block [OF assms(2)] have "block_wf (blocks ! idx)" by blast
  from emitted_bbox [OF m this]
  show "\<exists>x0 y0 x1 y1.
             field ''bbox'' e = Some (PList [PFloat x0, PFloat y0, PFloat x1, PFloat y1]) \<and>
             x0 \<le> x1 \<and> y0 \<le> y1" .
qed

theorem bbox_well_formed_witness:
  "sample_open (PStr (ascii ''a.pdf'')) = Inr sample_doc \<and> doc_wf sample_doc \<and>
   fst (parse_pdf_simple sample_open (PStr (ascii ''a.pdf'')) world0) = Inr sample_result \<and>
   map (field ''bbox'') (concat (map page_blocks (result_pages sample_result))) =
     [Some (PList [PFloat 72, PFloat 72, PFloat 300, PFloat 100]),
      Some (PList [PFloat 72, PFloat 120, PFloat 200, PFloat 220])]"
proof -
  have w: "doc_wf sample_doc"
    by (simp add: doc_wf_def page_wf_def block_wf_def sample_defs)
  from bbox_well_formed [OF sample_open_a w sample_parse_fst] sample_open_a w sample_parse_fst
  show ?thesis
    by (simp add: sample_result_def result_pages_def page_blocks_def ascii_def)
qed

section \<open>The fields of an image element\<close>

lemma emitted_image_fields:
  assumes "e \<in> set (emitted page_num idx b)"
    and "field ''type'' e = Some (PStr (ascii ''image''))"
  shows "keys e = [ascii ''id'', ascii ''type'', ascii ''bbox'', ascii ''pageIndex''] \<and>
         field ''content'' e = None"
  using emitted_cases [of page_num idx b] assms
  by (auto simp: text_element_def image_element_def ascii_def)

text \<open>
  Claim C9. Every element of the result whose \<open>type\<close> is \<open>image\<close> has exactly the keys
  \<open>id\<close>, \<open>type\<close>, \<open>bbox\<close> and \<open>pageIndex\<close>, and no \<open>content\<close>.
\<close>

theorem image_block_fields:
  assumes "fst (parse_pdf_simple fitz_open pdf_path w) = Inr r"
  shows "\<forall>p \<in> set (result_pages r). \<forall>e \<in> set (page_blocks p).
           field ''type'' e = Some (PStr (ascii ''image'')) \<longrightarrow>
           keys e = [ascii ''id'', ascii ''type'', ascii ''bbox'', ascii ''pageIndex''] \<and>
           field ''content'' e = None"
proof (intro ballI impI)
  fix p e assume p: "p \<in> set (result_pages r)" and e: "e \<in> set (page_blocks p)"
    and t: "field ''type'' e = Some (PStr (ascii ''image''))"
  from try_body_success [OF parse_pdf_simple_success [OF assms]]
  obtain doc where "fitz_open pdf_path = Inr doc" by blast
  from result_block_origin [OF this assms p e]
  obtain i idx b where "e \<in> set (emitted i idx b)" by blast
  from emitted_image_fields [OF this t]
  show "keys e = [ascii ''id'', ascii ''type'', ascii ''bbox'', ascii ''pageIndex''] \<and>
           field ''content'' e = None" .
qed

theorem image_block_fields_witness:
  "fst (parse_pdf_simple sample_open (PStr (ascii ''a.pdf'')) world0) = Inr sample_result \<and>
   field ''type'' (page_blocks (result_pages sample_result ! 0) ! 1) = Some (PStr (ascii ''image'')) \<and>
   keys (page_blocks (result_pages sample_result ! 0) ! 1) =
     [ascii ''id'', ascii ''type'', ascii ''bbox'', ascii ''pageIndex''] \<and>
   field ''content'' (page_blocks (result_pages sample_result ! 0) ! 1) = None"
  using image_block_fields [OF sample_parse_fst] sample_parse_fst
  by (simp add: sample_result_def result_pages_def page_blocks_def ascii_def)

section \<open>Opening and closing the document\<close>

lemma parse_pdf_simple_world:
  "snd (parse_pdf_simple fitz_open pdf_path w) = snd (try_body fitz_open pdf_path w)"
  by (auto simp: parse_pdf_simple_def split: prod.splits sum.splits)

lemma try_body_records_call:
  "open_calls (snd (try_body fitz_open pdf_path w)) = open_calls w @ [pdf_path]"
  by (simp add: try_body_def Let_def split: sum.splits)

lemma parse_pdf_simple_records_call:
  "open_calls (snd (parse_pdf_simple fitz_open pdf_path w)) = open_calls w @ [pdf_path]"
  by (simp add: parse_pdf_simple_world try_body_records_call)

lemma parse_pdf_simple_changes_world: "snd (parse_pdf_simple fitz_open pdf_path w) \<noteq> w"
proof
  assume "snd (parse_pdf_simple fitz_open pdf_path w) = w"
  then have "open_calls (snd (parse_pdf_simple fitz_open pdf_path w)) = open_calls w" by simp
  then show False by (simp add: parse_pdf_simple_records_call)
qed

lemma try_body_live_docs:
  "live_docs (snd (try_body fitz_open pdf_path w)) =
     (case fitz_open pdf_path of
        Inl e \<Rightarrow> live_docs w
      | Inr doc \<Rightarrow> (case pages_loop 0 doc [] of Inl e \<Rightarrow> live_docs w + 1 | Inr pages \<Rightarrow> live_docs w))"
  by (simp add: try_body_def Let_def split: sum.splits)

lemma closed_on_return:
  "fst (parse_pdf_simple fitz_open pdf_path w) = Inr r \<Longrightarrow>
   live_docs (snd (parse_pdf_simple fitz_open pdf_path w)) = live_docs w"
  using try_body_success [OF parse_pdf_simple_success, of fitz_open pdf_path w r]
  by (auto simp: parse_pdf_simple_world try_body_live_docs)

lemma left_open_on_failure:
  "fitz_open pdf_path = Inr doc \<Longrightarrow> pages_loop 0 doc [] = Inl e \<Longrightarrow>
   parse_pdf_simple fitz_open pdf_path w =
     (Inl (Exception (failure_prefix @ str_exn e)),
      w\<lparr>open_calls := open_calls w @ [pdf_path], live_docs := live_docs w + 1\<rparr>)"
  by (simp add: parse_pdf_simple_def try_body_def Let_def)

text \<open>
  Claim C1 says the document is closed on every exit path. The source closes it at
  line 67, on the path that returns, and nowhere on the path that raises: the sample
  library opens \<open>broken.pdf\<close>, its second page cannot be loaded, the call raises the
  wrapped exception, and the document is still open afterwards.
\<close>

theorem document_left_open_on_failure:
  "sample_open (PStr (ascii ''broken.pdf'')) = Inr broken_doc \<and>
   parse_pdf_simple sample_open (PStr (ascii ''broken.pdf'')) world0 =
     (Inl (Exception (failure_prefix @ ascii ''cannot load page'')),
      \<lparr>open_calls = [PStr (ascii ''broken.pdf'')], live_docs = 1\<rparr>)"
  by (simp add: sample_defs parse_pdf_simple_def try_body_def
      page_entry_def block_step_def block_text_def text_element_def
      image_element_def el_id_def ascii_def strip_def isspace_def str_nat.simps)

section \<open>Responses of the handler\<close>

text \<open>
  Claim C2. When the body is a dictionary whose \<open>pdf_path\<close> is a non-empty value and
  the body of the extraction's \<open>try\<close> raises (the library cannot open the path, or a
  later step fails), the response has the status 500 and its body is the dictionary
  with the single key \<open>error\<close>, whose value is the prefix of line 75 followed by the
  message of the exception that was raised. That body has no key \<open>structure\<close>.
\<close>

theorem extraction_failure_response:
  assumes "map_of d (ascii ''pdf_path'') = Some pdf_path" and "truthy pdf_path"
    and "fst (try_body fitz_open pdf_path w) = Inl cause"
  shows "fst (parse_pdf fitz_open (Inr (PDict d)) w) =
           (500, PDict [(ascii ''error'', PStr (failure_prefix @ str_exn cause))]) \<and>
         field ''structure'' (snd (fst (parse_pdf fitz_open (Inr (PDict d)) w))) = None"
proof -
  from assms(3) obtain w' where "try_body fitz_open pdf_path w = (Inl cause, w')"
    by (cases "try_body fitz_open pdf_path w") simp
  with assms(1,2) show ?thesis
    by (simp add: parse_pdf_def parse_pdf_simple_def dict_lookup_def ascii_def)
qed

theorem extraction_failure_response_witness:
  "map_of [(ascii ''pdf_path'', PStr (ascii ''missing.pdf''))] (ascii ''pdf_path'') =
     Some (PStr (ascii ''missing.pdf'')) \<and>
   truthy (PStr (ascii ''missing.pdf'') :: real pyval) \<and>
   fst (try_body sample_open (PStr (ascii ''missing.pdf'')) world0) =
     Inl (LibError (ascii ''no such file'')) \<and>
   fst (parse_pdf sample_open (Inr (PDict [(ascii ''pdf_path'', PStr (ascii ''missing.pdf''))])) world0) =
     (500, PDict [(ascii ''error'', PStr (failure_prefix @ ascii ''no such file''))])"
  using extraction_failure_response
    [of "[(ascii ''pdf_path'', PStr (ascii ''missing.pdf''))]" "PStr (ascii ''missing.pdf'')"
        sample_open world0 "LibError (ascii ''no such file'')"]
  by (simp add: try_body_def sample_open_def ascii_def)

text \<open>
  Claim C3. When the body is a dictionary without the key \<open>pdf_path\<close>, or with the empty
  string under it, the response is the status 400 with the body
  \<open>{"error": "PDF path required"}\<close>, and the effects are left as they were. A call of
  the extraction function would have changed them, since it records the path it opens:
  the function has not been called.
\<close>

theorem missing_path_rejected:
  assumes "map_of d (ascii ''pdf_path'') = None \<or> map_of d (ascii ''pdf_path'') = Some (PStr [])"
  shows "parse_pdf fitz_open (Inr (PDict d)) w =
           ((400, PDict [(ascii ''error'', PStr (ascii ''PDF path required''))]), w) \<and>
         (\<forall>p. snd (parse_pdf_simple fitz_open p w) \<noteq> w)"
  using assms by (auto simp: parse_pdf_def dict_lookup_def parse_pdf_simple_changes_world)

theorem missing_path_rejected_witness:
  "(map_of [(ascii ''other'', PInt 1 :: real pyval)] (ascii ''pdf_path'') = None \<or>
    map_of [(ascii ''other'', PInt 1 :: real pyval)] (ascii ''pdf_path'') = Some (PStr [])) \<and>
   parse_pdf sample_open (Inr (PDict [(ascii ''other'', PInt 1)])) world0 =
     ((400, PDict [(ascii ''error'', PStr (ascii ''PDF path required''))]), world0)"
  using missing_path_rejected [of "[(ascii ''other'', PInt 1)]" sample_open world0]
  by (simp add: ascii_def)

text \<open>The other way of the hypothesis: the key is there, with the empty string.\<close>

lemma empty_path_rejected_example:
  "parse_pdf sample_open (Inr (PDict [(ascii ''pdf_path'', PStr [])])) world0 =
     ((400, PDict [(ascii ''error'', PStr (ascii ''PDF path required''))]), world0)"
  by (simp add: parse_pdf_def dict_lookup_def)

text \<open>
  Claim C10. When evaluating \<open>request.json\<close> raises, or gives a value that is not a
  dictionary (\<open>None\<close> for a body that is absent or the JSON \<open>null\<close>), reading \<open>pdf_path\<close>
  raises inside the \<open>try\<close> and the handler answers with the status 500 and a body with
  the key \<open>error\<close> holding the message of the exception; it does not answer 400.
\<close>

theorem non_object_body:
  assumes "case request_json of Inl e \<Rightarrow> True | Inr v \<Rightarrow> \<not> is_dict v"
  shows "parse_pdf fitz_open request_json w =
           ((500, PDict [(ascii ''error'',
               PStr (case request_json of
                       Inl e \<Rightarrow> str_exn e
                     | Inr v \<Rightarrow> [39] @ type_name v @ [39] @ ascii '' object has no attribute '' @
                                [39] @ ascii ''get'' @ [39]))]), w)"
proof (cases request_json)
  case (Inl e)
  then show ?thesis by (simp add: parse_pdf_def)
next
  case (Inr v)
  with assms have "\<not> is_dict v" by simp
  with Inr show ?thesis by (cases v) (simp_all add: parse_pdf_def attribute_error_get_def)
qed

theorem non_object_body_witness:
  "\<not> is_dict (PNone :: real pyval) \<and>
   parse_pdf sample_open (Inr PNone) world0 =
     ((500, PDict [(ascii ''error'',
          PStr ([39] @ ascii ''NoneType'' @ [39] @ ascii '' object has no attribute '' @
                [39] @ ascii ''get'' @ [39]))]), world0)"
  using non_object_body [of "Inr PNone" sample_open world0]
  by (simp add: ascii_def)

end
